theory Spec2Isabelle
  imports Main "HOL-Library.Sublist"
begin

section \<open>Data model\<close>

text \<open>
  The component \<^verbatim>\<open>App\<close> of \<^verbatim>\<open>src/App.tsx\<close>. A JavaScript string is modelled as a
  \<^typ>\<open>string\<close>; text outside ASCII stands as its UTF-8 bytes. The catalogue rows are
  the objects \<^verbatim>\<open>{Symbol, Security, Market}\<close> of the interface \<^verbatim>\<open>Stock\<close>.
\<close>

record Stock =
  Symbol :: string
  Security :: string
  Market :: string

section \<open>Display unit\<close>

text \<open>
  The two unit labels are Korean words; they are written here as the UTF-8 bytes of the
  literals in the source (U+C6D0, and U+B2EC U+B7EC).
\<close>

definition won :: string where
  "won = [CHR 0xEC, CHR 0x9B, CHR 0x90]"

definition dollar :: string where
  "dollar = [CHR 0xEB, CHR 0x8B, CHR 0xAC, CHR 0xEB, CHR 0x9F, CHR 0xAC]"

definition getUnit :: "string \<Rightarrow> string" where
  "getUnit market =
     (if market = ''KOSPI'' \<or> market = ''KOSDAQ'' then won else dollar)"

section \<open>Request URLs\<close>

text \<open>
  \<^verbatim>\<open>apiUrl\<close> is the module constant read from the build configuration: a string, or
  \<^verbatim>\<open>undefined\<close> (\<^term>\<open>None\<close>). \<^verbatim>\<open>apiUrl.replace(/\/$/, '')\<close> removes one slash at the
  very end of the string, when there is one.
\<close>

definition strip_trailing_slash :: "string \<Rightarrow> string" where
  "strip_trailing_slash u = (if u \<noteq> [] \<and> last u = CHR ''/'' then butlast u else u)"

definition getApiUrl :: "string option \<Rightarrow> string \<Rightarrow> string" where
  "getApiUrl apiUrl path =
     (case apiUrl of
        None \<Rightarrow> path
      | Some u \<Rightarrow>
          if u = [] \<or> u = ''undefined'' then path
          else strip_trailing_slash u @ path)"

section \<open>Catalogue loading\<close>

text \<open>
  \<^verbatim>\<open>s.split(sep)\<close> for a separator of one character: the pieces between the
  separators, always at least one piece (\<^verbatim>\<open>''.split(',')\<close> is \<^verbatim>\<open>['']\<close>).
\<close>

fun js_split :: "char \<Rightarrow> string \<Rightarrow> string list" where
  "js_split sep [] = [[]]"
| "js_split sep (c # cs) =
     (if c = sep then [] # js_split sep cs
      else (case js_split sep cs of
              [] \<Rightarrow> [[c]]
            | w # ws \<Rightarrow> (c # w) # ws))"

text \<open>The callback of \<^verbatim>\<open>map\<close> in \<^verbatim>\<open>parseCSV\<close>; \<^term>\<open>None\<close> is its \<^verbatim>\<open>null\<close>.\<close>

definition parse_line :: "string \<Rightarrow> Stock option" where
  "parse_line line =
     (let cols = js_split CHR '','' (filter (\<lambda>c. c \<noteq> CHR 0x0D) line)
      in if length cols < 3 then None
         else Some \<lparr>Symbol = cols ! 0, Security = cols ! 1, Market = cols ! 2\<rparr>)"

definition parseCSV :: "string \<Rightarrow> Stock list" where
  "parseCSV csv =
     (let lines = js_split CHR 0x0A csv
      in map the (filter (\<lambda>r. r \<noteq> None) (map parse_line (drop 1 lines))))"

text \<open>The value handed to \<^verbatim>\<open>setAllStocks\<close> once the four files have arrived.\<close>

definition loadCatalog :: "string \<Rightarrow> string \<Rightarrow> string \<Rightarrow> string \<Rightarrow> Stock list" where
  "loadCatalog us ko nyse kosdaq = parseCSV us @ parseCSV ko @ parseCSV nyse @ parseCSV kosdaq"

section \<open>Search\<close>

text \<open>
  \<^verbatim>\<open>String.prototype.toLowerCase\<close> belongs to the runtime, not to this program: it
  follows the Unicode case mappings, is not a map over the single characters and may
  change the length of a text. The search takes it as the parameter \<open>toLowerCase\<close>, so
  what is proved of the search holds whatever the runtime's function does.
\<close>

text \<open>\<^verbatim>\<open>s.includes(q)\<close>: \<^verbatim>\<open>q\<close> occurs in \<^verbatim>\<open>s\<close> at some position.\<close>

fun js_includes :: "string \<Rightarrow> string \<Rightarrow> bool" where
  "js_includes [] q = (q = [])"
| "js_includes (c # s) q = (prefix q (c # s) \<or> js_includes s q)"

text \<open>The callback of \<^verbatim>\<open>filter\<close>; \<open>q\<close> is the query in lower case already.\<close>

definition matches :: "(string \<Rightarrow> string) \<Rightarrow> string \<Rightarrow> Stock \<Rightarrow> bool" where
  "matches toLowerCase q s =
     (js_includes (toLowerCase (Symbol s)) q \<or> js_includes (toLowerCase (Security s)) q)"

text \<open>The value handed to \<^verbatim>\<open>setResults\<close> by the search effect.\<close>

definition search :: "(string \<Rightarrow> string) \<Rightarrow> Stock list \<Rightarrow> string \<Rightarrow> Stock list" where
  "search toLowerCase allStocks query =
     (if query = [] then []
      else let q = toLowerCase query in take 20 (filter (matches toLowerCase q) allStocks))"

text \<open>The unit shown next to a price of the selected row: \<^verbatim>\<open>getUnit(selected.Market)\<close>.\<close>

definition unit_of :: "Stock \<Rightarrow> string" where
  "unit_of s = getUnit (Market s)"

section \<open>The component state and its asynchronous requests\<close>

text \<open>
  A request that has been dispatched by \<^verbatim>\<open>fetch\<close> and has not settled yet. The field
  \<open>issued_for\<close> records the row that was selected at dispatch; the source keeps no such
  tag, and nothing below reads it to decide what the program does.
\<close>

datatype pipeline = Price | Ai

record request =
  pipeline :: pipeline
  url :: string
  issued_for :: Stock

text \<open>
  How a request settles: the transport fails, or a response arrives with a status and a
  body. The body is \<^term>\<open>None\<close> when \<^verbatim>\<open>res.json()\<close> rejects; for the price pipeline
  the body stands for the value of \<^verbatim>\<open>data.close\<close>, for the AI pipeline for \<^verbatim>\<open>data\<close>.
\<close>

datatype 'b outcome = NetworkFailure | Response nat "'b option"

text \<open>\<^verbatim>\<open>res.ok\<close>\<close>

definition ok :: "nat \<Rightarrow> bool" where
  "ok status = (200 \<le> status \<and> status \<le> 299)"

text \<open>
  The promise after the two \<^verbatim>\<open>then\<close> handlers: \<^term>\<open>Some\<close> the decoded value when it
  is fulfilled, \<^term>\<open>None\<close> when it is rejected (\<^verbatim>\<open>throw new Error('API Error')\<close>, a
  transport failure, a body that is not JSON).
\<close>

definition decoded :: "'b outcome \<Rightarrow> 'b option" where
  "decoded out =
     (case out of
        NetworkFailure \<Rightarrow> None
      | Response status body \<Rightarrow> if \<not> ok status then None else body)"

text \<open>The eight \<^verbatim>\<open>useState\<close> cells, and the requests in flight.\<close>

record ('p, 'a) app =
  query :: string
  results :: "Stock list"
  selected :: "Stock option"
  allStocks :: "Stock list"
  latestPrice :: "'p option"
  aiResult :: "'a option"
  loadingPrice :: bool
  loadingAi :: bool
  inflight :: "request list"

definition init :: "('p, 'a) app" where
  "init = \<lparr>query = [], results = [], selected = None, allStocks = [],
            latestPrice = None, aiResult = None, loadingPrice = False, loadingAi = False,
            inflight = []\<rparr>"

subsection \<open>Effects\<close>

definition search_effect :: "(string \<Rightarrow> string) \<Rightarrow> ('p, 'a) app \<Rightarrow> ('p, 'a) app" where
  "search_effect toLowerCase st = st\<lparr>results := search toLowerCase (allStocks st) (query st)\<rparr>"

definition price_path :: "Stock \<Rightarrow> string" where
  "price_path s = ''/api/price?symbol='' @ Symbol s @ ''&market='' @ Market s"

definition ai_path :: "Stock \<Rightarrow> string" where
  "ai_path s = ''/api/ai?symbol='' @ Symbol s @ ''&market='' @ Market s"

definition price_effect :: "string option \<Rightarrow> ('p, 'a) app \<Rightarrow> ('p, 'a) app" where
  "price_effect apiUrl st =
     (case selected st of
        None \<Rightarrow> st\<lparr>latestPrice := None, aiResult := None\<rparr>
      | Some s \<Rightarrow>
          st\<lparr>loadingPrice := True, latestPrice := None,
             inflight := inflight st @
               [\<lparr>pipeline = Price, url = getApiUrl apiUrl (price_path s), issued_for = s\<rparr>]\<rparr>)"

text \<open>
  After a render the effects run in the order they are written, each one only when one
  of its dependencies differs from the previous render; \<open>catalog_changed\<close> says that
  \<^verbatim>\<open>allStocks\<close> holds a new array.
\<close>

definition run_effects ::
  "(string \<Rightarrow> string) \<Rightarrow> string option \<Rightarrow> bool \<Rightarrow>
     ('p, 'a) app \<Rightarrow> ('p, 'a) app \<Rightarrow> ('p, 'a) app" where
  "run_effects toLowerCase apiUrl catalog_changed old new =
     (let s1 = (if query new \<noteq> query old \<or> catalog_changed
                then search_effect toLowerCase new else new);
          s2 = (if selected new \<noteq> selected old then price_effect apiUrl s1 else s1)
      in s2)"

subsection \<open>Event handlers\<close>

definition onChange :: "string \<Rightarrow> ('p, 'a) app \<Rightarrow> ('p, 'a) app" where
  "onChange v st = st\<lparr>query := v, selected := None\<rparr>"

definition onClickResult :: "Stock \<Rightarrow> ('p, 'a) app \<Rightarrow> ('p, 'a) app" where
  "onClickResult stock st = st\<lparr>selected := Some stock\<rparr>"

definition handleAiAnalyze :: "string option \<Rightarrow> ('p, 'a) app \<Rightarrow> ('p, 'a) app" where
  "handleAiAnalyze apiUrl st =
     (case selected st of
        None \<Rightarrow> st
      | Some s \<Rightarrow>
          st\<lparr>loadingAi := True, aiResult := None,
             inflight := inflight st @
               [\<lparr>pipeline = Ai, url = getApiUrl apiUrl (ai_path s), issued_for = s\<rparr>]\<rparr>)"

text \<open>
  The tail of a promise chain, run when its request settles: \<^verbatim>\<open>then\<close> stores the value,
  \<^verbatim>\<open>catch\<close> stores \<^verbatim>\<open>null\<close>, \<^verbatim>\<open>finally\<close> clears the loading flag.
\<close>

definition price_settled :: "'p outcome \<Rightarrow> ('p, 'a) app \<Rightarrow> ('p, 'a) app" where
  "price_settled out st =
     (case decoded out of
        Some close \<Rightarrow> st\<lparr>latestPrice := Some close\<rparr>
      | None \<Rightarrow> st\<lparr>latestPrice := None\<rparr>)\<lparr>loadingPrice := False\<rparr>"

definition ai_settled :: "'a outcome \<Rightarrow> ('p, 'a) app \<Rightarrow> ('p, 'a) app" where
  "ai_settled out st =
     (case decoded out of
        Some data \<Rightarrow> st\<lparr>aiResult := Some data\<rparr>
      | None \<Rightarrow> st\<lparr>aiResult := None\<rparr>)\<lparr>loadingAi := False\<rparr>"

definition remove_nth :: "nat \<Rightarrow> 'x list \<Rightarrow> 'x list" where
  "remove_nth i xs = take i xs @ drop (Suc i) xs"

subsection \<open>Steps of the component\<close>

datatype ('p, 'a) event =
    CatalogLoaded string string string string
  | ChangeQuery string
  | ClickResult Stock
  | ClickAnalyze
  | PriceSettled nat "'p outcome"
  | AiSettled nat "'a outcome"

text \<open>
  When an event can happen: the result list is rendered only under
  \<^verbatim>\<open>query && results.length > 0 && !selected\<close>, the analyse button only when a row is
  selected and it is disabled while \<^verbatim>\<open>loadingAi\<close>; a request settles only while it is
  in flight.
\<close>

fun enabled :: "('p, 'a) event \<Rightarrow> ('p, 'a) app \<Rightarrow> bool" where
  "enabled (CatalogLoaded us ko nyse kosdaq) st = True"
| "enabled (ChangeQuery v) st = True"
| "enabled (ClickResult stock) st =
     (query st \<noteq> [] \<and> results st \<noteq> [] \<and> selected st = None \<and> stock \<in> set (results st))"
| "enabled ClickAnalyze st = (selected st \<noteq> None \<and> \<not> loadingAi st)"
| "enabled (PriceSettled i out) st =
     (i < length (inflight st) \<and> pipeline (inflight st ! i) = Price)"
| "enabled (AiSettled i out) st =
     (i < length (inflight st) \<and> pipeline (inflight st ! i) = Ai)"

text \<open>
  One step: the handler of the event, then the effects. The two parameters are what the
  component takes from outside: the runtime's \<^verbatim>\<open>toLowerCase\<close> and the configured base.
\<close>

fun fire ::
  "(string \<Rightarrow> string) \<Rightarrow> string option \<Rightarrow> ('p, 'a) event \<Rightarrow> ('p, 'a) app \<Rightarrow> ('p, 'a) app" where
  "fire toLowerCase apiUrl (CatalogLoaded us ko nyse kosdaq) st =
     run_effects toLowerCase apiUrl True st (st\<lparr>allStocks := loadCatalog us ko nyse kosdaq\<rparr>)"
| "fire toLowerCase apiUrl (ChangeQuery v) st =
     run_effects toLowerCase apiUrl False st (onChange v st)"
| "fire toLowerCase apiUrl (ClickResult stock) st =
     run_effects toLowerCase apiUrl False st (onClickResult stock st)"
| "fire toLowerCase apiUrl ClickAnalyze st = handleAiAnalyze apiUrl st"
| "fire toLowerCase apiUrl (PriceSettled i out) st =
     price_settled out (st\<lparr>inflight := remove_nth i (inflight st)\<rparr>)"
| "fire toLowerCase apiUrl (AiSettled i out) st =
     ai_settled out (st\<lparr>inflight := remove_nth i (inflight st)\<rparr>)"

definition step ::
  "(string \<Rightarrow> string) \<Rightarrow> string option \<Rightarrow> ('p, 'a) event \<Rightarrow> ('p, 'a) app \<Rightarrow>
     ('p, 'a) app option" where
  "step toLowerCase apiUrl ev st =
     (if enabled ev st then Some (fire toLowerCase apiUrl ev st) else None)"

fun run ::
  "(string \<Rightarrow> string) \<Rightarrow> string option \<Rightarrow> ('p, 'a) event list \<Rightarrow> ('p, 'a) app \<Rightarrow>
     ('p, 'a) app option" where
  "run toLowerCase apiUrl [] st = Some st"
| "run toLowerCase apiUrl (ev # evs) st =
     (case step toLowerCase apiUrl ev st of
        None \<Rightarrow> None
      | Some st' \<Rightarrow> run toLowerCase apiUrl evs st')"

inductive reachable ::
  "(string \<Rightarrow> string) \<Rightarrow> string option \<Rightarrow> ('p, 'a) app \<Rightarrow> bool"
  for toLowerCase and apiUrl where
  reachable_init: "reachable toLowerCase apiUrl init"
| reachable_step:
    "reachable toLowerCase apiUrl st \<Longrightarrow> enabled ev st \<Longrightarrow>
     reachable toLowerCase apiUrl (fire toLowerCase apiUrl ev st)"

section \<open>Notions of the specification\<close>

text \<open>Putting the pieces of a split together again, the separator between them.\<close>

fun js_join :: "char \<Rightarrow> string list \<Rightarrow> string" where
  "js_join sep [] = []"
| "js_join sep [w] = w"
| "js_join sep (w # ws) = w @ sep # js_join sep ws"

text \<open>The fields of a data row, and the catalogue entry made of its first three.\<close>

definition fields_of :: "string \<Rightarrow> string list" where
  "fields_of line = js_split CHR '','' (filter (\<lambda>c. c \<noteq> CHR 0x0D) line)"

definition row_of :: "string list \<Rightarrow> Stock" where
  "row_of cols = \<lparr>Symbol = cols ! 0, Security = cols ! 1, Market = cols ! 2\<rparr>"

text \<open>
  The query is a case-insensitive substring of a text: once both are taken to lower case,
  the query occurs in the text as a contiguous part.
\<close>

definition ci_substring :: "(string \<Rightarrow> string) \<Rightarrow> string \<Rightarrow> string \<Rightarrow> bool" where
  "ci_substring toLowerCase q t = sublist (toLowerCase q) (toLowerCase t)"

text \<open>The AI requests among the requests in flight.\<close>

definition ai_in_flight :: "('p, 'a) app \<Rightarrow> request list" where
  "ai_in_flight st = filter (\<lambda>r. pipeline r = Ai) (inflight st)"

text \<open>A fetch fails: the transport fails, or the status is not one of 200 to 299.\<close>

definition failed :: "'b outcome \<Rightarrow> bool" where
  "failed out = (case out of NetworkFailure \<Rightarrow> True | Response status body \<Rightarrow> \<not> ok status)"

section \<open>Example data\<close>

text \<open>
  What \<^verbatim>\<open>toLowerCase\<close> does to ASCII text: the letters A to Z go to a to z, every other
  character stays. The examples below are ASCII text and take it for the runtime's function.
\<close>

definition ascii_lower_char :: "char \<Rightarrow> char" where
  "ascii_lower_char c =
     (let n = (of_char c :: nat) in if 65 \<le> n \<and> n \<le> 90 then char_of (n + 32) else c)"

definition ascii_lower :: "string \<Rightarrow> string" where
  "ascii_lower s = map ascii_lower_char s"

definition aapl :: Stock where
  "aapl = \<lparr>Symbol = ''AAPL'', Security = ''Apple Inc.'', Market = ''NASDAQ''\<rparr>"

definition samsung :: Stock where
  "samsung = \<lparr>Symbol = ''005930'', Security = ''Samsung Electronics'', Market = ''KOSPI''\<rparr>"

definition us_csv :: string where
  "us_csv = ''Symbol,Security,Market'' @ [CHR 0x0A] @
            ''AAPL,Apple Inc.,NASDAQ'' @ [CHR 0x0D, CHR 0x0A] @
            ''bad,row'' @ [CHR 0x0A]"

definition ko_csv :: string where
  "ko_csv = ''Symbol,Security,Market'' @ [CHR 0x0A] @
            ''005930,Samsung Electronics,KOSPI,extra'' @ [CHR 0x0A]"

definition header_only :: string where
  "header_only = ''Symbol,Security,Market''"

definition loaded :: "(int, string) event" where
  "loaded = CatalogLoaded us_csv ko_csv header_only header_only"

text \<open>The user finds and picks the first row.\<close>

definition pick_aapl :: "(int, string) event list" where
  "pick_aapl = [loaded, ChangeQuery ''App'', ClickResult aapl]"

text \<open>Before its price arrives, the user types again and picks the second row.\<close>

definition pick_aapl_then_samsung :: "(int, string) event list" where
  "pick_aapl_then_samsung = pick_aapl @ [ChangeQuery ''sam'', ClickResult samsung]"

text \<open>The user asks for the analysis of the first row, then empties the box.\<close>

definition analyse_then_clear :: "(int, string) event list" where
  "analyse_then_clear = pick_aapl @ [ClickAnalyze, ChangeQuery []]"

text \<open>The requests and the states that the traces above go through.\<close>

definition aapl_price_request :: request where
  "aapl_price_request =
     \<lparr>pipeline = Price, url = ''/api/price?symbol=AAPL&market=NASDAQ'', issued_for = aapl\<rparr>"

definition aapl_ai_request :: request where
  "aapl_ai_request =
     \<lparr>pipeline = Ai, url = ''/api/ai?symbol=AAPL&market=NASDAQ'', issued_for = aapl\<rparr>"

definition samsung_price_request :: request where
  "samsung_price_request =
     \<lparr>pipeline = Price, url = ''/api/price?symbol=005930&market=KOSPI'', issued_for = samsung\<rparr>"

definition aapl_picked :: "(int, string) app" where
  "aapl_picked = \<lparr>query = ''App'', results = [aapl], selected = Some aapl,
     allStocks = [aapl, samsung], latestPrice = None, aiResult = None,
     loadingPrice = True, loadingAi = False, inflight = [aapl_price_request]\<rparr>"

definition aapl_analysing :: "(int, string) app" where
  "aapl_analysing = aapl_picked\<lparr>loadingAi := True, inflight := [aapl_price_request, aapl_ai_request]\<rparr>"

definition samsung_picked :: "(int, string) app" where
  "samsung_picked = \<lparr>query = ''sam'', results = [samsung], selected = Some samsung,
     allStocks = [aapl, samsung], latestPrice = None, aiResult = None,
     loadingPrice = True, loadingAi = False,
     inflight = [aapl_price_request, samsung_price_request]\<rparr>"

definition searching_app :: "(int, string) app" where
  "searching_app = \<lparr>query = ''App'', results = [aapl], selected = None,
     allStocks = [aapl, samsung], latestPrice = None, aiResult = None,
     loadingPrice = False, loadingAi = False, inflight = []\<rparr>"

text \<open>
  The analysis of the first row arrives after the user has typed again, and then the
  second row is picked.
\<close>

definition analysis_arrives_late :: "(int, string) event list" where
  "analysis_arrives_late =
     pick_aapl @ [ClickAnalyze, ChangeQuery ''sam'',
                  AiSettled 1 (Response 200 (Some ''AAPL forecast'')), ClickResult samsung]"

definition samsung_with_aapl_analysis :: "(int, string) app" where
  "samsung_with_aapl_analysis = \<lparr>query = ''sam'', results = [samsung], selected = Some samsung,
     allStocks = [aapl, samsung], latestPrice = None, aiResult = Some ''AAPL forecast'',
     loadingPrice = True, loadingAi = False,
     inflight = [aapl_price_request, samsung_price_request]\<rparr>"

text \<open>The state after the last trace: both requests for the first row are still in flight.\<close>

definition cleared :: "(int, string) app" where
  "cleared = \<lparr>query = [], results = [], selected = None, allStocks = [aapl, samsung],
     latestPrice = None, aiResult = None, loadingPrice = True, loadingAi = True,
     inflight = [aapl_price_request, aapl_ai_request]\<rparr>"

section \<open>Splitting\<close>

lemma js_split_not_Nil: "js_split sep s \<noteq> []"
  by (induction s) (auto split: list.splits)

lemma js_split_no_sep: "w \<in> set (js_split sep s) \<Longrightarrow> sep \<notin> set w"
  by (induction s arbitrary: w) (auto split: list.splits if_splits)

lemma js_join_Cons_piece:
  "ws \<noteq> [] \<Longrightarrow> js_join sep ((c # hd ws) # tl ws) = c # js_join sep ws"
  by (cases ws; cases "tl ws") auto

lemma js_join_split: "js_join sep (js_split sep s) = s"
proof (induction s)
  case Nil
  show ?case by simp
next
  case (Cons c cs)
  obtain w ws where sp: "js_split sep cs = w # ws"
    using js_split_not_Nil [of sep cs] by (cases "js_split sep cs") auto
  show ?case
  proof (cases "c = sep")
    case True
    then show ?thesis using Cons sp by simp
  next
    case False
    have "js_join sep ((c # w) # ws) = c # js_join sep (w # ws)"
      using js_join_Cons_piece [of "w # ws" sep c] by simp
    then show ?thesis using False Cons sp by simp
  qed
qed

lemma js_split_line:
  "sep \<notin> set l \<Longrightarrow> js_split sep (l @ sep # rest) = l # js_split sep rest"
  by (induction l) (auto split: list.splits)

lemma js_split_single: "sep \<notin> set l \<Longrightarrow> js_split sep l = [l]"
  by (induction l) (auto split: list.splits)

section \<open>Parsing\<close>

lemma parse_line_fields:
  "parse_line line = (if length (fields_of line) < 3 then None else Some (row_of (fields_of line)))"
  by (simp add: parse_line_def fields_of_def row_of_def Let_def)

lemma keep_parsed:
  "map the (filter (\<lambda>r. r \<noteq> None) (map parse_line ls)) =
   map row_of (filter (\<lambda>cols. 3 \<le> length cols) (map fields_of ls))"
  by (induction ls) (auto simp: parse_line_fields)

lemma parseCSV_header:
  assumes "CHR 0x0A \<notin> set h"
  shows "parseCSV (h @ CHR 0x0A # body) =
         map row_of (filter (\<lambda>cols. 3 \<le> length cols) (map fields_of (js_split CHR 0x0A body)))"
  using assms unfolding parseCSV_def Let_def keep_parsed by (simp add: js_split_line)

text \<open>
  Claim C7. Parsing a source drops its first line, whatever it holds, removes the carriage
  returns of every other line, splits the line at the commas, drops the rows of fewer than
  three fields and keeps the others in their order; the catalogue is the parsed rows of
  the four sources one after the other, in the order of the sources.
\<close>
theorem parseCSV_rows:
  "parseCSV csv =
     map row_of (filter (\<lambda>cols. 3 \<le> length cols) (map fields_of (tl (js_split CHR 0x0A csv))))
   \<and> (CHR 0x0A \<notin> set header \<longrightarrow>
        parseCSV (header @ CHR 0x0A # body) =
          map row_of (filter (\<lambda>cols. 3 \<le> length cols) (map fields_of (js_split CHR 0x0A body))))
   \<and> loadCatalog us ko nyse kosdaq = concat (map parseCSV [us, ko, nyse, kosdaq])"
proof -
  have 1: "parseCSV csv =
     map row_of (filter (\<lambda>cols. 3 \<le> length cols) (map fields_of (tl (js_split CHR 0x0A csv))))"
    unfolding parseCSV_def Let_def keep_parsed by (simp add: drop_Suc)
  have 2: "CHR 0x0A \<notin> set header \<longrightarrow>
        parseCSV (header @ CHR 0x0A # body) =
          map row_of (filter (\<lambda>cols. 3 \<le> length cols) (map fields_of (js_split CHR 0x0A body)))"
    using parseCSV_header [of header body] by (rule impI)
  have 3: "loadCatalog us ko nyse kosdaq = concat (map parseCSV [us, ko, nyse, kosdaq])"
    by (simp add: loadCatalog_def)
  from 1 2 3 show ?thesis by (intro conjI)
qed

lemma parse_us: "parseCSV us_csv = [aapl]"
  by code_simp

lemma parse_ko: "parseCSV ko_csv = [samsung]"
  by code_simp

lemma parse_header_only: "parseCSV header_only = []"
  by code_simp

theorem parseCSV_rows_witness:
  "parseCSV us_csv = [aapl]
   \<and> map fields_of (tl (js_split CHR 0x0A us_csv)) =
       [[''AAPL'', ''Apple Inc.'', ''NASDAQ''], [''bad'', ''row''], [[]]]
   \<and> CHR 0x0A \<notin> set ''Symbol,Security,Market''
   \<and> map row_of (filter (\<lambda>cols. 3 \<le> length cols)
         (map fields_of (js_split CHR 0x0A (''005930,Samsung Electronics,KOSPI,extra'' @ [CHR 0x0A])))) =
       [samsung]
   \<and> loadCatalog us_csv ko_csv header_only header_only = [aapl, samsung]"
proof -
  let ?body = "''005930,Samsung Electronics,KOSPI,extra'' @ [CHR 0x0A]"
  note inst = parseCSV_rows [of us_csv "''Symbol,Security,Market''" ?body
      us_csv ko_csv header_only header_only]
  have f: "map fields_of (tl (js_split CHR 0x0A us_csv)) =
     [[''AAPL'', ''Apple Inc.'', ''NASDAQ''], [''bad'', ''row''], [[]]]"
    by code_simp
  have h: "CHR 0x0A \<notin> set ''Symbol,Security,Market''"
    by simp
  have k: "''Symbol,Security,Market'' @ CHR 0x0A # ?body = ko_csv"
    by (simp add: ko_csv_def)
  have "parseCSV (''Symbol,Security,Market'' @ CHR 0x0A # ?body) =
        map row_of (filter (\<lambda>cols. 3 \<le> length cols) (map fields_of (js_split CHR 0x0A ?body)))"
    using inst [THEN conjunct2, THEN conjunct1] h by (rule mp)
  then have 2: "map row_of (filter (\<lambda>cols. 3 \<le> length cols)
      (map fields_of (js_split CHR 0x0A ?body))) = [samsung]"
    unfolding k parse_ko by (rule sym)
  have 3: "loadCatalog us_csv ko_csv header_only header_only = [aapl, samsung]"
    using inst [THEN conjunct2, THEN conjunct2]
    by (simp add: parse_us parse_ko parse_header_only)
  from parse_us f h 2 3 show ?thesis by (intro conjI)
qed

section \<open>Search\<close>

lemma js_includes_sublist: "js_includes s q = sublist q s"
  by (induction s) (auto simp: sublist_Cons_right)

lemma matches_iff:
  "matches lc (lc q) = (\<lambda>s. ci_substring lc q (Symbol s) \<or> ci_substring lc q (Security s))"
  by (rule ext) (simp add: matches_def ci_substring_def js_includes_sublist)

lemma search_first_matches:
  "q \<noteq> [] \<Longrightarrow>
   search lc catalog q =
     take 20 (filter (\<lambda>s. ci_substring lc q (Symbol s) \<or> ci_substring lc q (Security s)) catalog)"
  by (simp add: search_def matches_iff Let_def)

lemma subseq_take: "subseq (take n xs) xs"
  by (metis append_take_drop_id prefix_def prefix_imp_subseq)

lemma in_take_filter: "x \<in> set (take n (filter P xs)) \<Longrightarrow> P x"
proof -
  assume "x \<in> set (take n (filter P xs))"
  then have "x \<in> set (filter P xs)" by (rule in_set_takeD)
  then show "P x" by simp
qed

lemma subseq_take_filter: "subseq (take n (filter P xs)) xs"
  using subseq_take [of n "filter P xs"] subseq_filter_left [of P xs]
  by (rule subseq_order.trans)

text \<open>The search does not tell two queries apart that are the same in lower case.\<close>

lemma search_query_case:
  assumes "q \<noteq> []" and "q' \<noteq> []" and "lc q' = lc q"
  shows "search lc catalog q' = search lc catalog q"
  using assms by (simp add: search_def)

text \<open>
  For ASCII text the lower case is taken character by character, and the query is a
  case-insensitive substring exactly when some contiguous part of the text is the query
  up to the case of its letters.
\<close>

lemma map_eq_sandwich:
  assumes "map f s = ps @ map f q @ ss"
  shows "\<exists>a m b. s = a @ m @ b \<and> map f m = map f q"
proof -
  from assms have "\<exists>a r. s = a @ r \<and> ps = map f a \<and> map f q @ ss = map f r"
    by (simp only: map_eq_append_conv)
  then obtain a r where 1: "s = a @ r" and 2: "map f q @ ss = map f r"
    by (elim exE conjE)
  from 2 have "\<exists>m b. r = m @ b \<and> map f q = map f m \<and> ss = map f b"
    by (simp only: append_eq_map_conv)
  then obtain m b where 3: "r = m @ b" and 4: "map f q = map f m"
    by (elim exE conjE)
  have "s = a @ m @ b \<and> map f m = map f q"
    using 1 3 4 by simp
  then show ?thesis by (intro exI)
qed

lemma ascii_ci_substring:
  "ci_substring ascii_lower q t =
     (\<exists>mid. sublist mid t \<and> list_all2 (\<lambda>c d. ascii_lower_char c = ascii_lower_char d) mid q)"
proof
  assume "ci_substring ascii_lower q t"
  then obtain ps ss where "map ascii_lower_char t = ps @ map ascii_lower_char q @ ss"
    unfolding ci_substring_def ascii_lower_def sublist_def by (elim exE)
  from map_eq_sandwich [OF this]
  obtain a m b where t: "t = a @ m @ b" and m: "map ascii_lower_char m = map ascii_lower_char q"
    by (elim exE conjE)
  from t have "sublist m t"
    by (simp add: sublist_appendI)
  moreover from m have "list_all2 (\<lambda>c d. ascii_lower_char c = ascii_lower_char d) m q"
    by (simp add: list_all2_conv_all_nth list_eq_iff_nth_eq)
  ultimately have "sublist m t \<and> list_all2 (\<lambda>c d. ascii_lower_char c = ascii_lower_char d) m q"
    by (rule conjI)
  then show "\<exists>mid. sublist mid t \<and> list_all2 (\<lambda>c d. ascii_lower_char c = ascii_lower_char d) mid q"
    by (rule exI)
next
  assume "\<exists>mid. sublist mid t \<and> list_all2 (\<lambda>c d. ascii_lower_char c = ascii_lower_char d) mid q"
  then obtain mid where sub: "sublist mid t"
    and same: "list_all2 (\<lambda>c d. ascii_lower_char c = ascii_lower_char d) mid q"
    by (elim exE conjE)
  from same have low: "map ascii_lower_char mid = map ascii_lower_char q"
    by (simp add: list_all2_conv_all_nth list_eq_iff_nth_eq)
  from sub obtain ps ss where "t = ps @ mid @ ss"
    unfolding sublist_def by (elim exE)
  then have "ascii_lower t = ascii_lower ps @ ascii_lower q @ ascii_lower ss"
    using low by (simp add: ascii_lower_def)
  then show "ci_substring ascii_lower q t"
    by (simp add: ci_substring_def sublist_appendI)
qed

text \<open>
  Claim C3. Whatever the runtime's lower case is: every entry of the result of a search
  contains the query as a case-insensitive substring of its symbol or of its name; the
  result has at most 20 entries; its entries stand in the order of the catalogue; and two
  queries that differ in case only have the same result.
\<close>

theorem search_results:
  "(\<forall>s \<in> set (search lc catalog q).
      ci_substring lc q (Symbol s) \<or> ci_substring lc q (Security s))
   \<and> length (search lc catalog q) \<le> 20
   \<and> subseq (search lc catalog q) catalog
   \<and> (q \<noteq> [] \<and> q' \<noteq> [] \<and> lc q' = lc q \<longrightarrow> search lc catalog q' = search lc catalog q)"
proof (cases "q = []")
  case True
  then have "search lc catalog q = []" by (simp add: search_def)
  then show ?thesis using True by simp
next
  case False
  let ?P = "\<lambda>s. ci_substring lc q (Symbol s) \<or> ci_substring lc q (Security s)"
  have eq: "search lc catalog q = take 20 (filter ?P catalog)"
    using False by (rule search_first_matches)
  have 1: "\<forall>s \<in> set (search lc catalog q). ?P s"
    unfolding eq by (rule ballI) (rule in_take_filter)
  have 2: "length (search lc catalog q) \<le> 20"
    unfolding eq by simp
  have 3: "subseq (search lc catalog q) catalog"
    unfolding eq by (rule subseq_take_filter)
  have 4: "q \<noteq> [] \<and> q' \<noteq> [] \<and> lc q' = lc q \<longrightarrow> search lc catalog q' = search lc catalog q"
    using search_query_case [of q q' lc catalog] by blast
  from 1 2 3 4 show ?thesis by (intro conjI)
qed

lemma search_aPP: "search ascii_lower [aapl, samsung] ''aPP'' = [aapl]"
  by code_simp

lemma search_exact_case: "search (\<lambda>t. t) [aapl, samsung] ''aPP'' = []"
  by code_simp

theorem search_results_witness:
  "search ascii_lower [aapl, samsung] ''aPP'' = [aapl]
   \<and> (ci_substring ascii_lower ''aPP'' (Symbol aapl) \<or> ci_substring ascii_lower ''aPP'' (Security aapl))
   \<and> length (search ascii_lower [aapl, samsung] ''aPP'') \<le> 20
   \<and> subseq (search ascii_lower [aapl, samsung] ''aPP'') [aapl, samsung]
   \<and> ascii_lower ''APP'' = ascii_lower ''aPP''
   \<and> search ascii_lower [aapl, samsung] ''APP'' = [aapl]"
proof -
  note inst = search_results [where lc = ascii_lower and catalog = "[aapl, samsung]"
      and q = "''aPP''" and q' = "''APP''"]
  have mem: "aapl \<in> set (search ascii_lower [aapl, samsung] ''aPP'')"
    by (simp add: search_aPP)
  have 1: "ci_substring ascii_lower ''aPP'' (Symbol aapl)
      \<or> ci_substring ascii_lower ''aPP'' (Security aapl)"
    using inst [THEN conjunct1] mem by (rule bspec)
  have 2: "length (search ascii_lower [aapl, samsung] ''aPP'') \<le> 20"
    using inst [THEN conjunct2, THEN conjunct1] .
  have 3: "subseq (search ascii_lower [aapl, samsung] ''aPP'') [aapl, samsung]"
    using inst [THEN conjunct2, THEN conjunct2, THEN conjunct1] .
  have c: "ascii_lower ''APP'' = ascii_lower ''aPP''"
    by code_simp
  have ne: "''aPP'' \<noteq> [] \<and> ''APP'' \<noteq> [] \<and> ascii_lower ''APP'' = ascii_lower ''aPP''"
    using c by simp
  have "search ascii_lower [aapl, samsung] ''APP'' = search ascii_lower [aapl, samsung] ''aPP''"
    using inst [THEN conjunct2, THEN conjunct2, THEN conjunct2] ne by (rule mp)
  then have 4: "search ascii_lower [aapl, samsung] ''APP'' = [aapl]"
    unfolding search_aPP .
  from search_aPP 1 2 3 c 4 show ?thesis by (intro conjI)
qed

section \<open>Unit\<close>

lemma won_neq_dollar: "won \<noteq> dollar"
  by (simp add: won_def dollar_def)

lemma range_getUnit: "range getUnit = {won, dollar}"
proof
  show "range getUnit \<subseteq> {won, dollar}"
    by (auto simp: getUnit_def)
  have "won = getUnit ''KOSPI''" "dollar = getUnit ''NYSE''"
    by (simp_all add: getUnit_def)
  then show "{won, dollar} \<subseteq> range getUnit"
    by (metis empty_subsetI insert_subset rangeI)
qed

lemma unit_of_won: "unit_of s = won \<longleftrightarrow> Market s = ''KOSPI'' \<or> Market s = ''KOSDAQ''"
  using won_neq_dollar by (simp add: unit_of_def getUnit_def)

lemma unit_of_dollar: "unit_of s = dollar \<longleftrightarrow> Market s \<noteq> ''KOSPI'' \<and> Market s \<noteq> ''KOSDAQ''"
  using won_neq_dollar by (simp add: unit_of_def getUnit_def)

text \<open>
  Claim C8. The unit shown for a row depends on the market of the row only; it is defined
  for every market, it is one label for the markets KOSPI and KOSDAQ and the other label
  for every other market, and the two labels differ.
\<close>
theorem unit_of_market:
  "(Market s = Market t \<longrightarrow> unit_of s = unit_of t)
   \<and> (unit_of s = won \<longleftrightarrow> Market s = ''KOSPI'' \<or> Market s = ''KOSDAQ'')
   \<and> (unit_of s = dollar \<longleftrightarrow> Market s \<noteq> ''KOSPI'' \<and> Market s \<noteq> ''KOSDAQ'')
   \<and> range getUnit = {won, dollar}
   \<and> won \<noteq> dollar"
proof -
  have "Market s = Market t \<longrightarrow> unit_of s = unit_of t"
    by (simp add: unit_of_def)
  then show ?thesis
    using unit_of_won [of s] unit_of_dollar [of s] range_getUnit won_neq_dollar
    by (intro conjI)
qed

theorem unit_of_market_witness:
  "Market samsung = Market (samsung\<lparr>Symbol := ''000660''\<rparr>)
   \<and> unit_of samsung = unit_of (samsung\<lparr>Symbol := ''000660''\<rparr>)
   \<and> unit_of samsung = won \<and> unit_of aapl = dollar \<and> won \<noteq> dollar"
proof -
  let ?t = "samsung\<lparr>Symbol := ''000660''\<rparr>"
  have m: "Market samsung = Market ?t"
    by simp
  have k: "Market samsung = ''KOSPI''"
    by (simp add: samsung_def)
  have n: "Market aapl \<noteq> ''KOSPI'' \<and> Market aapl \<noteq> ''KOSDAQ''"
    by (simp add: aapl_def)
  note sam = unit_of_market [of samsung ?t]
  note app = unit_of_market [of aapl aapl]
  have 1: "unit_of samsung = unit_of ?t"
    using sam [THEN conjunct1] m by (rule mp)
  have 2: "unit_of samsung = won"
    using sam [THEN conjunct2, THEN conjunct1] k by blast
  have 3: "unit_of aapl = dollar"
    using app [THEN conjunct2, THEN conjunct2, THEN conjunct1] n by blast
  have 4: "won \<noteq> dollar"
    using sam by blast
  from m 1 2 3 4 show ?thesis
    by (intro conjI)
qed

section \<open>URL\<close>

lemma strip_trailing_slash_snoc: "strip_trailing_slash (b @ ''/'') = b"
  by (simp add: strip_trailing_slash_def)

lemma strip_trailing_slash_id: "\<not> suffix ''/'' u \<Longrightarrow> strip_trailing_slash u = u"
  by (cases u rule: rev_cases) (auto simp: strip_trailing_slash_def suffix_def)

lemma strip_trailing_slash_clean:
  "\<not> suffix ''//'' u \<Longrightarrow> \<not> suffix ''/'' (strip_trailing_slash u)"
proof (cases "suffix ''/'' u")
  case False
  then show ?thesis by (simp add: strip_trailing_slash_id)
next
  case True
  then obtain b where u: "u = b @ ''/''" by (auto simp: suffix_def)
  assume "\<not> suffix ''//'' u"
  then have "\<not> suffix ''/'' b" using u by (auto simp: suffix_def)
  then show ?thesis using u by (simp add: strip_trailing_slash_snoc)
qed

text \<open>
  Claim C9, as amended. Without a base, with the empty base and with the base
  \<^verbatim>\<open>undefined\<close> the URL is the path. With any other base it is the base without one
  slash at its end, followed by the path; the stripped base ends in a slash only when the
  base ended in two.
\<close>
theorem getApiUrl_cases:
  "getApiUrl None path = path
   \<and> getApiUrl (Some []) path = path
   \<and> getApiUrl (Some ''undefined'') path = path
   \<and> (base \<noteq> [] \<and> base \<noteq> ''undefined'' \<longrightarrow>
        getApiUrl (Some base) path = strip_trailing_slash base @ path)
   \<and> strip_trailing_slash (b @ ''/'') = b
   \<and> (\<not> suffix ''/'' base \<longrightarrow> strip_trailing_slash base = base)
   \<and> (\<not> suffix ''//'' base \<longrightarrow> \<not> suffix ''/'' (strip_trailing_slash base))"
  using strip_trailing_slash_clean [of base] strip_trailing_slash_id [of base]
  by (simp add: getApiUrl_def strip_trailing_slash_snoc)

theorem getApiUrl_cases_witness:
  "getApiUrl (Some ''https://api.example.com/'') ''/api/price'' = ''https://api.example.com/api/price''
   \<and> \<not> suffix ''/'' (strip_trailing_slash ''https://api.example.com/'')
   \<and> strip_trailing_slash ''https://api.example.com'' = ''https://api.example.com''
   \<and> getApiUrl (Some ''https://api.example.com'') ''/api/price'' = ''https://api.example.com/api/price''"
proof -
  let ?base = "''https://api.example.com/''"
  let ?bare = "''https://api.example.com''"
  note inst = getApiUrl_cases [of "''/api/price''" ?base ?bare]
  note inst' = getApiUrl_cases [of "''/api/price''" ?bare "[]"]
  have ne: "?base \<noteq> [] \<and> ?base \<noteq> ''undefined''"
    by simp
  have ne': "?bare \<noteq> [] \<and> ?bare \<noteq> ''undefined''"
    by simp
  have n: "\<not> suffix ''//'' ?base"
    by code_simp
  have n': "\<not> suffix ''/'' ?bare"
    by code_simp
  have s: "strip_trailing_slash ?base = ?bare"
    using inst [THEN conjunct2, THEN conjunct2, THEN conjunct2, THEN conjunct2, THEN conjunct1]
    by simp
  have "getApiUrl (Some ?base) ''/api/price'' = strip_trailing_slash ?base @ ''/api/price''"
    using inst [THEN conjunct2, THEN conjunct2, THEN conjunct2, THEN conjunct1] ne by (rule mp)
  then have 1: "getApiUrl (Some ?base) ''/api/price'' = ''https://api.example.com/api/price''"
    by (simp add: s)
  have 2: "\<not> suffix ''/'' (strip_trailing_slash ?base)"
    using inst [THEN conjunct2, THEN conjunct2, THEN conjunct2, THEN conjunct2, THEN conjunct2,
        THEN conjunct2] n by (rule mp)
  have 3: "strip_trailing_slash ?bare = ?bare"
    using inst' [THEN conjunct2, THEN conjunct2, THEN conjunct2, THEN conjunct2, THEN conjunct2,
        THEN conjunct1] n' by (rule mp)
  have "getApiUrl (Some ?bare) ''/api/price'' = strip_trailing_slash ?bare @ ''/api/price''"
    using inst' [THEN conjunct2, THEN conjunct2, THEN conjunct2, THEN conjunct1] ne' by (rule mp)
  then have 4: "getApiUrl (Some ?bare) ''/api/price'' = ''https://api.example.com/api/price''"
    by (simp add: 3)
  from 1 2 3 4 show ?thesis by (intro conjI)
qed

text \<open>
  Claim C9 as it is written fails: a base that ends in two slashes leaves a double slash
  where the path is joined, and the base \<^verbatim>\<open>undefined\<close> is not put before the path.
\<close>

theorem getApiUrl_counterexample:
  "getApiUrl (Some ''https://api.example.com//'') ''/api/price'' =
     ''https://api.example.com/'' @ ''/api/price''
   \<and> getApiUrl (Some ''undefined'') ''/api/price'' \<noteq>
     strip_trailing_slash ''undefined'' @ ''/api/price''"
  by (simp add: getApiUrl_def strip_trailing_slash_def)

section \<open>Reachable states\<close>

lemma run_reachable:
  "reachable lc apiUrl st \<Longrightarrow> run lc apiUrl evs st = Some st' \<Longrightarrow> reachable lc apiUrl st'"
proof (induction evs arbitrary: st)
  case Nil
  then show ?case by simp
next
  case (Cons ev evs)
  from Cons.prems(2) have en: "enabled ev st" and rest: "run lc apiUrl evs (fire lc apiUrl ev st) = Some st'"
    by (auto simp: step_def split: if_splits)
  from Cons.prems(1) en have "reachable lc apiUrl (fire lc apiUrl ev st)"
    by (rule reachable_step)
  then show ?case using rest by (rule Cons.IH)
qed

lemma results_fire:
  assumes "results st = search lc (allStocks st) (query st)"
  shows "results (fire lc apiUrl ev st) = search lc (allStocks (fire lc apiUrl ev st)) (query (fire lc apiUrl ev st))"
proof (cases ev)
  case (CatalogLoaded us ko nyse kosdaq)
  then show ?thesis
    by (simp add: run_effects_def search_effect_def price_effect_def Let_def split: option.splits)
next
  case (ChangeQuery v)
  then show ?thesis using assms
    by (simp add: run_effects_def search_effect_def price_effect_def onChange_def Let_def
        split: option.splits)
next
  case (ClickResult stock)
  then show ?thesis using assms
    by (simp add: run_effects_def search_effect_def price_effect_def onClickResult_def Let_def
        split: option.splits)
next
  case ClickAnalyze
  then show ?thesis using assms
    by (simp add: handleAiAnalyze_def split: option.splits)
next
  case (PriceSettled i out)
  then show ?thesis using assms
    by (simp add: price_settled_def split: option.splits)
next
  case (AiSettled i out)
  then show ?thesis using assms
    by (simp add: ai_settled_def split: option.splits)
qed

lemma reachable_results:
  "reachable lc apiUrl st \<Longrightarrow> results st = search lc (allStocks st) (query st)"
proof (induction rule: reachable.induct)
  case reachable_init
  show ?case by (simp add: init_def search_def)
next
  case (reachable_step st ev)
  then show ?case by (simp add: results_fire)
qed

text \<open>
  Claim C6. The search of any catalogue for the empty query is empty, and in every state
  the component can reach an empty query comes with an empty result list.
\<close>
theorem empty_query_no_results:
  "search lc catalog [] = []
   \<and> (reachable lc apiUrl st \<longrightarrow> query st = [] \<longrightarrow> results st = [])"
proof -
  have 1: "search lc catalog [] = []"
    by (simp add: search_def)
  have 2: "reachable lc apiUrl st \<longrightarrow> query st = [] \<longrightarrow> results st = []"
    using reachable_results [of lc apiUrl st] by (simp add: search_def)
  from 1 2 show ?thesis by (rule conjI)
qed

lemma run_analyse_then_clear: "run ascii_lower None analyse_then_clear init = Some cleared"
  by code_simp

theorem empty_query_no_results_witness:
  "search ascii_lower [aapl, samsung] [] = []
   \<and> reachable ascii_lower None cleared \<and> query cleared = [] \<and> results cleared = []"
proof -
  note inst = empty_query_no_results [where lc = ascii_lower and catalog = "[aapl, samsung]"
      and apiUrl = None and st = cleared]
  have r: "reachable ascii_lower None cleared"
    using reachable_init run_analyse_then_clear by (rule run_reachable)
  have q: "query cleared = []"
    by (simp add: cleared_def)
  have "results cleared = []"
    using inst [THEN conjunct2] r q by blast
  with inst [THEN conjunct1] r q show ?thesis by (intro conjI)
qed

section \<open>Late responses\<close>

lemma run_pick_aapl: "run ascii_lower None pick_aapl init = Some aapl_picked"
  by code_simp

lemma run_pick_aapl_then_samsung: "run ascii_lower None pick_aapl_then_samsung init = Some samsung_picked"
  by code_simp

lemma run_searching: "run ascii_lower None [loaded, ChangeQuery ''App''] init = Some searching_app"
  by code_simp

lemma run_analysing: "run ascii_lower None (pick_aapl @ [ClickAnalyze]) init = Some aapl_analysing"
  by code_simp

text \<open>
  Claim C1 as it is written fails. The first row is picked, then the second one while the
  price of the first is still on its way; when that response arrives it is stored and the
  loading flag is cleared, although the second row is selected and its own request is
  still in flight.
\<close>
theorem stale_price_counterexample:
  "run ascii_lower None pick_aapl_then_samsung init = Some samsung_picked
   \<and> selected samsung_picked = Some samsung
   \<and> issued_for (inflight samsung_picked ! 0) = aapl
   \<and> (Symbol aapl, Market aapl) \<noteq> (Symbol samsung, Market samsung)
   \<and> step ascii_lower None (PriceSettled 0 (Response 200 (Some 185))) samsung_picked =
       Some (samsung_picked\<lparr>latestPrice := Some 185, loadingPrice := False,
                            inflight := [samsung_price_request]\<rparr>)"
proof -
  have "step ascii_lower None (PriceSettled 0 (Response 200 (Some 185))) samsung_picked =
       Some (samsung_picked\<lparr>latestPrice := Some 185, loadingPrice := False,
                            inflight := [samsung_price_request]\<rparr>)"
    by code_simp
  moreover have "selected samsung_picked = Some samsung"
    by (simp add: samsung_picked_def)
  moreover have "issued_for (inflight samsung_picked ! 0) = aapl"
    by (simp add: samsung_picked_def aapl_price_request_def)
  moreover have "(Symbol aapl, Market aapl) \<noteq> (Symbol samsung, Market samsung)"
    by (simp add: aapl_def samsung_def)
  ultimately show ?thesis
    using run_pick_aapl_then_samsung by (intro conjI)
qed

lemma fire_PriceSettled:
  "fire lc apiUrl (PriceSettled i out) st =
     st\<lparr>inflight := remove_nth i (inflight st), latestPrice := decoded out, loadingPrice := False\<rparr>"
  by (simp add: price_settled_def split: option.splits)

lemma fire_AiSettled:
  "fire lc apiUrl (AiSettled i out) st =
     st\<lparr>inflight := remove_nth i (inflight st), aiResult := decoded out, loadingAi := False\<rparr>"
  by (simp add: ai_settled_def split: option.splits)

lemma decoded_failed: "failed out \<Longrightarrow> decoded out = None"
  by (cases out) (simp_all add: failed_def decoded_def)

text \<open>
  Claim C1, as amended. When a price request in flight settles, its outcome is applied
  whatever is selected by then: the price becomes the decoded value (null after a
  failure), the price loading flag becomes false, and the selection stays as it is.
\<close>
theorem price_response_applied:
  "enabled (PriceSettled i out) st \<longrightarrow>
     latestPrice (fire lc apiUrl (PriceSettled i out) st) = decoded out
     \<and> loadingPrice (fire lc apiUrl (PriceSettled i out) st) = False
     \<and> selected (fire lc apiUrl (PriceSettled i out) st) = selected st"
  unfolding fire_PriceSettled by simp

theorem price_response_applied_witness:
  "enabled (PriceSettled 0 (Response 200 (Some 185))) samsung_picked
   \<and> latestPrice (fire ascii_lower None (PriceSettled 0 (Response 200 (Some 185))) samsung_picked) = Some 185
   \<and> loadingPrice (fire ascii_lower None (PriceSettled 0 (Response 200 (Some 185))) samsung_picked) = False
   \<and> selected (fire ascii_lower None (PriceSettled 0 (Response 200 (Some 185))) samsung_picked) = Some samsung"
proof -
  let ?ev = "PriceSettled 0 (Response 200 (Some 185)) :: (int, string) event"
  have en: "enabled ?ev samsung_picked"
    by (simp add: samsung_picked_def aapl_price_request_def)
  have d: "decoded (Response 200 (Some (185::int))) = Some 185"
    by (simp add: decoded_def ok_def)
  have s: "selected samsung_picked = Some samsung"
    by (simp add: samsung_picked_def)
  from price_response_applied [where lc = ascii_lower and i = 0 and out = "Response 200 (Some 185)"
      and st = samsung_picked and apiUrl = None] en
  have "latestPrice (fire ascii_lower None ?ev samsung_picked) = decoded (Response 200 (Some 185))
     \<and> loadingPrice (fire ascii_lower None ?ev samsung_picked) = False
     \<and> selected (fire ascii_lower None ?ev samsung_picked) = selected samsung_picked"
    by (rule mp)
  with en show ?thesis
    unfolding d s by (intro conjI) (elim conjE, assumption)+
qed


section \<open>Selecting\<close>

lemma fire_ClickResult:
  assumes "enabled (ClickResult stock) st"
  shows "fire lc apiUrl (ClickResult stock) st =
     st\<lparr>selected := Some stock, loadingPrice := True, latestPrice := None,
        inflight := inflight st @
          [\<lparr>pipeline = Price, url = getApiUrl apiUrl (price_path stock), issued_for = stock\<rparr>]\<rparr>"
proof -
  from assms have "selected st = None" by simp
  then show ?thesis
    by (simp add: run_effects_def onClickResult_def price_effect_def)
qed

lemma fire_ClickAnalyze:
  assumes "selected st = Some stock"
  shows "fire lc apiUrl ClickAnalyze st =
     st\<lparr>loadingAi := True, aiResult := None,
        inflight := inflight st @
          [\<lparr>pipeline = Ai, url = getApiUrl apiUrl (ai_path stock), issued_for = stock\<rparr>]\<rparr>"
  using assms by (simp add: handleAiAnalyze_def)

lemma fire_ClickAnalyze_none:
  assumes "selected st = None"
  shows "fire lc apiUrl ClickAnalyze st = st"
  using assms by (simp add: handleAiAnalyze_def)

text \<open>No event but the click on the analyse button puts an AI request in flight.\<close>

lemma subseq_remove_nth: "subseq (remove_nth i xs) xs"
proof (induction xs arbitrary: i)
  case Nil
  show ?case by (simp add: remove_nth_def)
next
  case (Cons x xs)
  show ?case
  proof (cases i)
    case 0
    have "subseq xs (x # xs)" by (rule list_emb_Cons) (rule subseq_order.refl)
    then show ?thesis using 0 by (simp add: remove_nth_def)
  next
    case (Suc j)
    have "subseq (remove_nth j xs) xs" by (rule Cons.IH)
    then show ?thesis using Suc by (simp add: remove_nth_def)
  qed
qed

lemma ai_in_flight_effects:
  "ai_in_flight (run_effects lc apiUrl changed old new) = ai_in_flight new"
  by (simp add: run_effects_def search_effect_def price_effect_def ai_in_flight_def Let_def
      split: option.splits)

lemma ai_in_flight_others:
  assumes "ev \<noteq> ClickAnalyze"
  shows "subseq (ai_in_flight (fire lc apiUrl ev st)) (ai_in_flight st)"
proof (cases ev)
  case (CatalogLoaded us ko nyse kosdaq)
  then show ?thesis
    by (simp add: ai_in_flight_effects) (simp add: ai_in_flight_def)
next
  case (ChangeQuery v)
  then show ?thesis
    by (simp add: ai_in_flight_effects) (simp add: ai_in_flight_def onChange_def)
next
  case (ClickResult stock)
  then show ?thesis
    by (simp add: ai_in_flight_effects) (simp add: ai_in_flight_def onClickResult_def)
next
  case ClickAnalyze
  with assms show ?thesis by simp
next
  case (PriceSettled i out)
  have "ai_in_flight (fire lc apiUrl (PriceSettled i out) st) =
        filter (\<lambda>r. pipeline r = Ai) (remove_nth i (inflight st))"
    by (simp add: ai_in_flight_def price_settled_def split: option.splits)
  then show ?thesis
    unfolding PriceSettled ai_in_flight_def
    by (simp only: subseq_filter subseq_remove_nth)
next
  case (AiSettled i out)
  have "ai_in_flight (fire lc apiUrl (AiSettled i out) st) =
        filter (\<lambda>r. pipeline r = Ai) (remove_nth i (inflight st))"
    by (simp add: ai_in_flight_def ai_settled_def split: option.splits)
  then show ?thesis
    unfolding AiSettled ai_in_flight_def
    by (simp only: subseq_filter subseq_remove_nth)
qed

lemma run_analysis_arrives_late:
  "run ascii_lower None analysis_arrives_late init = Some samsung_with_aapl_analysis"
  by code_simp

text \<open>
  Claim C2 as it is written fails. Picking a row begins the price request only: no AI
  request is in flight afterwards, and the AI loading flag is false. Nor does picking a
  row reset the AI value: an analysis of the first row that arrives after the user has
  typed again is still stored once the second row is picked.
\<close>

theorem select_counterexample:
  "run ascii_lower None [loaded, ChangeQuery ''App''] init = Some searching_app
   \<and> step ascii_lower None (ClickResult aapl) searching_app = Some aapl_picked
   \<and> map pipeline (inflight aapl_picked) = [Price]
   \<and> loadingAi aapl_picked = False
   \<and> run ascii_lower None analysis_arrives_late init = Some samsung_with_aapl_analysis
   \<and> selected samsung_with_aapl_analysis = Some samsung
   \<and> aiResult samsung_with_aapl_analysis = Some ''AAPL forecast''"
proof -
  have 1: "step ascii_lower None (ClickResult aapl) searching_app = Some aapl_picked"
    by code_simp
  have 2: "map pipeline (inflight aapl_picked) = [Price]"
    by (simp add: aapl_picked_def aapl_price_request_def)
  have 3: "loadingAi aapl_picked = False"
    by (simp add: aapl_picked_def)
  have 4: "selected samsung_with_aapl_analysis = Some samsung"
    by (simp add: samsung_with_aapl_analysis_def)
  have 5: "aiResult samsung_with_aapl_analysis = Some ''AAPL forecast''"
    by (simp add: samsung_with_aapl_analysis_def)
  from run_searching 1 2 3 run_analysis_arrives_late 4 5 show ?thesis
    by (intro conjI)
qed

text \<open>
  Claim C2, as amended. Picking a row selects it, sets the price to null and the price
  loading flag to true, and begins the price request for that row and no other request.
  No event but the click on the analyse button puts an AI request in flight; that click
  does nothing without a selection, and with one it sets the AI value to null and the AI
  loading flag to true and begins the AI request for the selected row.
\<close>

theorem select_starts_price_fetch_only:
  "(enabled (ClickResult stock) st \<longrightarrow>
      selected (fire lc apiUrl (ClickResult stock) st) = Some stock
      \<and> latestPrice (fire lc apiUrl (ClickResult stock) st) = None
      \<and> loadingPrice (fire lc apiUrl (ClickResult stock) st) = True
      \<and> inflight (fire lc apiUrl (ClickResult stock) st) =
          inflight st @
            [\<lparr>pipeline = Price, url = getApiUrl apiUrl (price_path stock),
              issued_for = stock\<rparr>])
   \<and> (ev \<noteq> ClickAnalyze \<longrightarrow>
        subseq (ai_in_flight (fire lc apiUrl ev st)) (ai_in_flight st))
   \<and> (selected st = None \<longrightarrow> fire lc apiUrl ClickAnalyze st = st)
   \<and> (selected st = Some stock \<longrightarrow>
      fire lc apiUrl ClickAnalyze st =
        st\<lparr>loadingAi := True, aiResult := None,
           inflight := inflight st @
             [\<lparr>pipeline = Ai, url = getApiUrl apiUrl (ai_path stock),
               issued_for = stock\<rparr>]\<rparr>)"
proof -
  have 1: "enabled (ClickResult stock) st \<longrightarrow>
      selected (fire lc apiUrl (ClickResult stock) st) = Some stock
      \<and> latestPrice (fire lc apiUrl (ClickResult stock) st) = None
      \<and> loadingPrice (fire lc apiUrl (ClickResult stock) st) = True
      \<and> inflight (fire lc apiUrl (ClickResult stock) st) =
          inflight st @
            [\<lparr>pipeline = Price, url = getApiUrl apiUrl (price_path stock),
              issued_for = stock\<rparr>]"
  proof
    assume en: "enabled (ClickResult stock) st"
    show "selected (fire lc apiUrl (ClickResult stock) st) = Some stock
      \<and> latestPrice (fire lc apiUrl (ClickResult stock) st) = None
      \<and> loadingPrice (fire lc apiUrl (ClickResult stock) st) = True
      \<and> inflight (fire lc apiUrl (ClickResult stock) st) =
          inflight st @
            [\<lparr>pipeline = Price, url = getApiUrl apiUrl (price_path stock),
              issued_for = stock\<rparr>]"
      unfolding fire_ClickResult [OF en] by simp
  qed
  have 2: "ev \<noteq> ClickAnalyze \<longrightarrow>
        subseq (ai_in_flight (fire lc apiUrl ev st)) (ai_in_flight st)"
    using ai_in_flight_others [of ev lc apiUrl st] by (rule impI)
  have 3: "selected st = None \<longrightarrow> fire lc apiUrl ClickAnalyze st = st"
    using fire_ClickAnalyze_none [of st lc apiUrl] by (rule impI)
  have 4: "selected st = Some stock \<longrightarrow>
      fire lc apiUrl ClickAnalyze st =
        st\<lparr>loadingAi := True, aiResult := None,
           inflight := inflight st @
             [\<lparr>pipeline = Ai, url = getApiUrl apiUrl (ai_path stock),
               issued_for = stock\<rparr>]\<rparr>"
    using fire_ClickAnalyze [of st stock lc apiUrl] by (rule impI)
  from 1 2 3 4 show ?thesis by (intro conjI)
qed

lemma aapl_urls:
  "getApiUrl None (price_path aapl) = ''/api/price?symbol=AAPL&market=NASDAQ''"
  "getApiUrl None (ai_path aapl) = ''/api/ai?symbol=AAPL&market=NASDAQ''"
  by (simp_all add: getApiUrl_def price_path_def ai_path_def aapl_def)

theorem select_starts_price_fetch_only_witness:
  "enabled (ClickResult aapl) searching_app
   \<and> selected (fire ascii_lower None (ClickResult aapl) searching_app) = Some aapl
   \<and> latestPrice (fire ascii_lower None (ClickResult aapl) searching_app) = None
   \<and> loadingPrice (fire ascii_lower None (ClickResult aapl) searching_app) = True
   \<and> inflight (fire ascii_lower None (ClickResult aapl) searching_app) = [aapl_price_request]
   \<and> ai_in_flight (fire ascii_lower None (ClickResult aapl) searching_app) = []
   \<and> selected searching_app = None
   \<and> fire ascii_lower None ClickAnalyze searching_app = searching_app
   \<and> selected aapl_picked = Some aapl
   \<and> fire ascii_lower None ClickAnalyze aapl_picked = aapl_analysing"
proof -
  let ?pick = "ClickResult aapl :: (int, string) event"
  note inst = select_starts_price_fetch_only [where lc = ascii_lower and apiUrl = None
      and stock = aapl and st = searching_app and ev = ?pick]
  note inst' = select_starts_price_fetch_only [where lc = ascii_lower and apiUrl = None
      and stock = aapl and st = aapl_picked and ev = ?pick]
  have en: "enabled ?pick searching_app"
    by (simp add: searching_app_def)
  have none: "selected searching_app = None"
    by (simp add: searching_app_def)
  have sel: "selected aapl_picked = Some aapl"
    by (simp add: aapl_picked_def)
  have other: "?pick \<noteq> ClickAnalyze"
    by simp
  have idle: "ai_in_flight searching_app = []"
    by (simp add: ai_in_flight_def searching_app_def)
  have picked: "selected (fire ascii_lower None ?pick searching_app) = Some aapl
      \<and> latestPrice (fire ascii_lower None ?pick searching_app) = None
      \<and> loadingPrice (fire ascii_lower None ?pick searching_app) = True
      \<and> inflight (fire ascii_lower None ?pick searching_app) =
          inflight searching_app @
            [\<lparr>pipeline = Price, url = getApiUrl None (price_path aapl), issued_for = aapl\<rparr>]"
    using inst [THEN conjunct1] en by (rule mp)
  have 1: "selected (fire ascii_lower None ?pick searching_app) = Some aapl"
    using picked by (elim conjE)
  have 2: "latestPrice (fire ascii_lower None ?pick searching_app) = None"
    using picked by (elim conjE)
  have 3: "loadingPrice (fire ascii_lower None ?pick searching_app) = True"
    using picked by (elim conjE)
  have "inflight (fire ascii_lower None ?pick searching_app) =
          inflight searching_app @
            [\<lparr>pipeline = Price, url = getApiUrl None (price_path aapl), issued_for = aapl\<rparr>]"
    using picked by (elim conjE)
  then have 4: "inflight (fire ascii_lower None ?pick searching_app) = [aapl_price_request]"
    by (simp add: aapl_urls searching_app_def aapl_price_request_def)
  have "subseq (ai_in_flight (fire ascii_lower None ?pick searching_app))
      (ai_in_flight searching_app)"
    using inst [THEN conjunct2, THEN conjunct1] other by (rule mp)
  then have 5: "ai_in_flight (fire ascii_lower None ?pick searching_app) = []"
    unfolding idle by simp
  have 6: "fire ascii_lower None ClickAnalyze searching_app = searching_app"
    using inst [THEN conjunct2, THEN conjunct2, THEN conjunct1] none by (rule mp)
  have "fire ascii_lower None ClickAnalyze aapl_picked =
        aapl_picked\<lparr>loadingAi := True, aiResult := None,
           inflight := inflight aapl_picked @
             [\<lparr>pipeline = Ai, url = getApiUrl None (ai_path aapl), issued_for = aapl\<rparr>]\<rparr>"
    using inst' [THEN conjunct2, THEN conjunct2, THEN conjunct2] sel by (rule mp)
  then have 7: "fire ascii_lower None ClickAnalyze aapl_picked = aapl_analysing"
    by (simp add: aapl_urls aapl_analysing_def aapl_picked_def aapl_ai_request_def)
  from en 1 2 3 4 5 none 6 sel 7 show ?thesis by (intro conjI)
qed

section \<open>Failures\<close>

text \<open>
  Claim C4. When a price or an AI request fails (the transport fails, or the status is not
  2xx), the value of its pipeline is null afterwards, the state does not tell one kind of
  failure from another, and the loading flag of the pipeline is false after every outcome.
\<close>
theorem failure_collapses_to_null:
  "(failed out \<longrightarrow> latestPrice (fire lc apiUrl (PriceSettled i out) st) = None)
   \<and> loadingPrice (fire lc apiUrl (PriceSettled i out) st) = False
   \<and> (failed out \<and> failed out' \<longrightarrow>
        fire lc apiUrl (PriceSettled i out) st = fire lc apiUrl (PriceSettled i out') st)
   \<and> (failed aout \<longrightarrow> aiResult (fire lc apiUrl (AiSettled j aout) st) = None)
   \<and> loadingAi (fire lc apiUrl (AiSettled j aout) st) = False
   \<and> (failed aout \<and> failed aout' \<longrightarrow>
        fire lc apiUrl (AiSettled j aout) st = fire lc apiUrl (AiSettled j aout') st)"
  unfolding fire_PriceSettled fire_AiSettled by (simp add: decoded_failed)


theorem failure_collapses_to_null_witness:
  "failed (Response 500 (Some 185) :: int outcome) \<and> failed (NetworkFailure :: int outcome)
   \<and> latestPrice (fire ascii_lower None (PriceSettled 0 (Response 500 (Some 185))) aapl_analysing) = None
   \<and> loadingPrice (fire ascii_lower None (PriceSettled 0 (Response 500 (Some 185))) aapl_analysing) = False
   \<and> fire ascii_lower None (PriceSettled 0 (Response 500 (Some 185))) aapl_analysing =
       fire ascii_lower None (PriceSettled 0 NetworkFailure) aapl_analysing
   \<and> failed (Response 404 None :: string outcome)
   \<and> aiResult (fire ascii_lower None (AiSettled 1 (Response 404 None)) aapl_analysing) = None
   \<and> loadingAi (fire ascii_lower None (AiSettled 1 (Response 404 None)) aapl_analysing) = False
   \<and> failed (NetworkFailure :: string outcome)
   \<and> fire ascii_lower None (AiSettled 1 (Response 404 None)) aapl_analysing =
       fire ascii_lower None (AiSettled 1 NetworkFailure) aapl_analysing"
proof -
  note inst = failure_collapses_to_null [where lc = ascii_lower and apiUrl = None
      and st = aapl_analysing and i = 0 and out = "Response 500 (Some 185)"
      and out' = NetworkFailure and j = 1 and aout = "Response 404 None"
      and aout' = NetworkFailure]
  have f1: "failed (Response 500 (Some 185) :: int outcome)"
    by (simp add: failed_def ok_def)
  have f2: "failed (NetworkFailure :: int outcome)"
    by (simp add: failed_def)
  have f3: "failed (Response 404 None :: string outcome)"
    by (simp add: failed_def ok_def)
  have 1: "latestPrice (fire ascii_lower None (PriceSettled 0 (Response 500 (Some 185))) aapl_analysing) = None"
    using inst [THEN conjunct1] f1 by (rule mp)
  have 2: "loadingPrice (fire ascii_lower None (PriceSettled 0 (Response 500 (Some 185))) aapl_analysing) = False"
    using inst [THEN conjunct2, THEN conjunct1] .
  have 3: "fire ascii_lower None (PriceSettled 0 (Response 500 (Some 185))) aapl_analysing =
       fire ascii_lower None (PriceSettled 0 NetworkFailure) aapl_analysing"
    using inst [THEN conjunct2, THEN conjunct2, THEN conjunct1] f1 f2 by blast
  have 4: "aiResult (fire ascii_lower None (AiSettled 1 (Response 404 None)) aapl_analysing) = None"
    using inst [THEN conjunct2, THEN conjunct2, THEN conjunct2, THEN conjunct1] f3 by (rule mp)
  have 5: "loadingAi (fire ascii_lower None (AiSettled 1 (Response 404 None)) aapl_analysing) = False"
    using inst [THEN conjunct2, THEN conjunct2, THEN conjunct2, THEN conjunct2, THEN conjunct1] .
  have f4: "failed (NetworkFailure :: string outcome)"
    by (simp add: failed_def)
  have 6: "fire ascii_lower None (AiSettled 1 (Response 404 None)) aapl_analysing =
       fire ascii_lower None (AiSettled 1 NetworkFailure) aapl_analysing"
    using inst [THEN conjunct2, THEN conjunct2, THEN conjunct2, THEN conjunct2, THEN conjunct2]
      f3 f4 by blast
  from f1 f2 1 2 3 f3 4 5 f4 6 show ?thesis by (intro conjI)
qed

section \<open>Editing the query\<close>

lemma fire_ChangeQuery:
  "fire lc apiUrl (ChangeQuery v) st =
     (if selected st = None
      then st\<lparr>query := v,
             results := (if v \<noteq> query st then search lc (allStocks st) v else results st)\<rparr>
      else st\<lparr>query := v,
             results := (if v \<noteq> query st then search lc (allStocks st) v else results st),
             selected := None, latestPrice := None, aiResult := None\<rparr>)"
  by (simp add: run_effects_def onChange_def search_effect_def price_effect_def Let_def)

text \<open>
  Claim C5. Every edit of the query is possible in every state; its handler sets the
  selection to none, the effects (among them the search) run on the state the handler
  leaves, and the selection is none after the step.
\<close>
theorem query_edit_clears_selection:
  "enabled (ChangeQuery v) st
   \<and> selected (onChange v st) = None
   \<and> fire lc apiUrl (ChangeQuery v) st = run_effects lc apiUrl False st (onChange v st)
   \<and> (v \<noteq> query st \<longrightarrow>
        results (fire lc apiUrl (ChangeQuery v) st) = search lc (allStocks (onChange v st)) v)
   \<and> selected (fire lc apiUrl (ChangeQuery v) st) = None"
proof -
  have "selected (fire lc apiUrl (ChangeQuery v) st) = None"
    unfolding fire_ChangeQuery by simp
  moreover have "v \<noteq> query st \<longrightarrow>
        results (fire lc apiUrl (ChangeQuery v) st) = search lc (allStocks (onChange v st)) v"
    unfolding fire_ChangeQuery by (simp add: onChange_def)
  moreover have "selected (onChange v st) = None"
    by (simp add: onChange_def)
  ultimately show ?thesis by simp
qed

theorem query_edit_clears_selection_witness:
  "selected aapl_picked = Some aapl
   \<and> ''sam'' \<noteq> query aapl_picked
   \<and> selected (onChange ''sam'' aapl_picked) = None
   \<and> results (fire ascii_lower None (ChangeQuery ''sam'') aapl_picked) = [samsung]
   \<and> selected (fire ascii_lower None (ChangeQuery ''sam'') aapl_picked) = None"
proof -
  note inst = query_edit_clears_selection [where lc = ascii_lower and v = "''sam''"
      and st = aapl_picked and apiUrl = None]
  have s: "selected aapl_picked = Some aapl"
    by (simp add: aapl_picked_def)
  have q: "''sam'' \<noteq> query aapl_picked"
    by (simp add: aapl_picked_def)
  have c: "search ascii_lower (allStocks (onChange ''sam'' aapl_picked)) ''sam'' = [samsung]"
    by code_simp
  have 1: "selected (onChange ''sam'' aapl_picked) = None"
    using inst [THEN conjunct2, THEN conjunct1] .
  have "results (fire ascii_lower None (ChangeQuery ''sam'') aapl_picked) =
        search ascii_lower (allStocks (onChange ''sam'' aapl_picked)) ''sam''"
    using inst [THEN conjunct2, THEN conjunct2, THEN conjunct2, THEN conjunct1] q by (rule mp)
  then have 2: "results (fire ascii_lower None (ChangeQuery ''sam'') aapl_picked) = [samsung]"
    unfolding c .
  have 3: "selected (fire ascii_lower None (ChangeQuery ''sam'') aapl_picked) = None"
    using inst [THEN conjunct2, THEN conjunct2, THEN conjunct2, THEN conjunct2] .
  from s q 1 2 3 show ?thesis by (intro conjI)
qed

section \<open>Deselecting\<close>

text \<open>
  Claim C10. The price effect with no selection sets the price and the AI value to null
  and changes nothing else. An edit of the query while a row is selected therefore leaves
  the requests in flight and both loading flags as they are; besides the two values it
  changes the query, the result list and the selection only.
\<close>
theorem deselect_resets_values_only:
  "(selected st = None \<longrightarrow>
      price_effect apiUrl st = st\<lparr>latestPrice := None, aiResult := None\<rparr>)
   \<and> (selected st \<noteq> None \<longrightarrow>
      fire lc apiUrl (ChangeQuery v) st =
        st\<lparr>query := v,
           results := (if v \<noteq> query st then search lc (allStocks st) v else results st),
           selected := None, latestPrice := None, aiResult := None\<rparr>
      \<and> inflight (fire lc apiUrl (ChangeQuery v) st) = inflight st
      \<and> loadingPrice (fire lc apiUrl (ChangeQuery v) st) = loadingPrice st
      \<and> loadingAi (fire lc apiUrl (ChangeQuery v) st) = loadingAi st)"
proof -
  have 1: "selected st = None \<longrightarrow>
      price_effect apiUrl st = st\<lparr>latestPrice := None, aiResult := None\<rparr>"
    by (simp add: price_effect_def)
  have 2: "selected st \<noteq> None \<longrightarrow>
      fire lc apiUrl (ChangeQuery v) st =
        st\<lparr>query := v,
           results := (if v \<noteq> query st then search lc (allStocks st) v else results st),
           selected := None, latestPrice := None, aiResult := None\<rparr>
      \<and> inflight (fire lc apiUrl (ChangeQuery v) st) = inflight st
      \<and> loadingPrice (fire lc apiUrl (ChangeQuery v) st) = loadingPrice st
      \<and> loadingAi (fire lc apiUrl (ChangeQuery v) st) = loadingAi st"
    unfolding fire_ChangeQuery by simp
  from 1 2 show ?thesis by (rule conjI)
qed

theorem deselect_resets_values_only_witness:
  "selected aapl_analysing \<noteq> None
   \<and> fire ascii_lower None (ChangeQuery []) aapl_analysing = cleared
   \<and> inflight cleared = inflight aapl_analysing
   \<and> loadingPrice cleared = True \<and> loadingAi cleared = True
   \<and> selected cleared = None
   \<and> price_effect None cleared = cleared"
proof -
  note inst = deselect_resets_values_only [where lc = ascii_lower and st = aapl_analysing
      and apiUrl = None and v = "[]"]
  note inst' = deselect_resets_values_only [where lc = ascii_lower and st = cleared
      and apiUrl = None and v = "[]"]
  have s: "selected aapl_analysing \<noteq> None"
    by (simp add: aapl_analysing_def aapl_picked_def)
  have n: "selected cleared = None"
    by (simp add: cleared_def)
  have e: "search lc cat [] = []" for lc cat
    by (simp add: search_def)
  have r: "aapl_analysing\<lparr>query := [],
           results := (if [] \<noteq> query aapl_analysing then search ascii_lower (allStocks aapl_analysing) []
                       else results aapl_analysing),
           selected := None, latestPrice := None, aiResult := None\<rparr> = cleared"
    by (simp add: e aapl_analysing_def aapl_picked_def cleared_def aapl_price_request_def
        aapl_ai_request_def)
  have "fire ascii_lower None (ChangeQuery []) aapl_analysing =
        aapl_analysing\<lparr>query := [],
           results := (if [] \<noteq> query aapl_analysing then search ascii_lower (allStocks aapl_analysing) []
                       else results aapl_analysing),
           selected := None, latestPrice := None, aiResult := None\<rparr>"
    using inst [THEN conjunct2] s by blast
  then have 1: "fire ascii_lower None (ChangeQuery []) aapl_analysing = cleared"
    unfolding r .
  have 2: "inflight cleared = inflight aapl_analysing"
    using inst [THEN conjunct2] s unfolding 1 by blast
  have 3: "loadingPrice cleared = True" "loadingAi cleared = True"
    by (simp_all add: cleared_def)
  have "price_effect None cleared = cleared\<lparr>latestPrice := None, aiResult := None\<rparr>"
    using inst' [THEN conjunct1] n by (rule mp)
  then have 4: "price_effect None cleared = cleared"
    by (simp add: cleared_def)
  from s 1 2 3 n 4 show ?thesis by (intro conjI)
qed

end
